theory Spec2Isabelle
  imports Main "HOL-Library.Word"
begin

unbundle bit_operations_syntax

section \<open>The commit log readers of server/commitlog/reader.go\<close>

text \<open>
  The file reader.go holds the single-message decoder \<open>ReadMessage\<close>, the two blocking
  readers \<open>UncommittedReader\<close> and \<open>CommittedReader\<close>, their constructors and
  \<open>getHWPos\<close>. The types \<open>Segment\<close> and \<open>CommitLog\<close>, the lookups \<open>findSegment\<close> and
  \<open>findSegmentByBaseOffset\<close> and the byte order \<open>proto.Encoding\<close> live in other files of the
  package; they are modelled from sections 4.2 to 4.4 and 6 of the specification and marked
  as such.

  Conventions. Go's \<open>int\<close> and \<open>int64\<close> positions and offsets are \<open>int\<close>; no claim
  depends on 64-bit wrap-around, and the header fields of \<open>ReadMessage\<close>, where the
  conversion from \<open>uint64\<close> to \<open>int64\<close> matters, are words. A nil error is \<open>None\<close>.
  A \<open>*Segment\<close> is an address into the store of segment objects, so that pointer equality
  (\<open>r.seg == r.hwSeg\<close>) is equality of addresses and a reader sees what a writer appended
  to the segment it points to. The reader's mutex serialises \<open>Read\<close> calls; one call is
  modelled, so it does not appear.
\<close>

type_synonym byte = "8 word"

datatype error =
    EOF                       \<comment> \<open>io.EOF, the specification's EndOfStream\<close>
  | ErrSegmentNotFound
  | ErrNoSegmentToConsume     \<comment> \<open>errors.New("no segment to consume")\<close>
  | ErrOffsetOutOfRange       \<comment> \<open>what an index lookup reports for an absent offset\<close>
  | ErrOther nat              \<comment> \<open>any other error value, e.g. a storage error\<close>

datatype 'a result = Ok 'a | Failed error | Panic

subsection \<open>ReadMessage\<close>

text \<open>
  Modelled from the spec: \<open>proto.Encoding\<close> is not in the source files; section 6 of the
  specification fixes it as big-endian. \<open>Uint64 b\<close> and \<open>Uint32 b\<close> decode the first eight
  and four bytes of \<open>b\<close>; the callers below check the length that Go's decoder would
  panic on.
\<close>

definition Uint64 :: "byte list \<Rightarrow> 64 word" where
  "Uint64 b = foldl (\<lambda>acc x. push_bit 8 acc OR ucast x) 0 (take 8 b)"

definition Uint32 :: "byte list \<Rightarrow> 32 word" where
  "Uint32 b = foldl (\<lambda>acc x. push_bit 8 acc OR ucast x) 0 (take 4 b)"

text \<open>
  An \<open>io.Reader\<close> is a state \<open>'s\<close> with a function \<open>rd s len\<close> for \<open>Read\<close> on a buffer
  of length \<open>len\<close>: it yields the bytes copied, the error, and the next state. The bytes
  land at the front of the buffer; the count \<open>Read\<close> returns is their number.
\<close>

type_synonym 's reader = "'s \<Rightarrow> nat \<Rightarrow> (byte list \<times> error option) \<times> 's"

definition copy_into :: "byte list \<Rightarrow> byte list \<Rightarrow> byte list" where
  "copy_into buf d = take (length buf) (d @ drop (length d) buf)"

text \<open>
  \<open>ReadMessage\<close> (lines 16 to 30) calls \<open>Read\<close> once for the header buffer and once
  for the payload buffer and ignores both counts. The three slice expressions \<open>headersBuf[0:]\<close>, \<open>headersBuf[8:]\<close>,
  \<open>headersBuf[16:]\<close> and the decoder's bounds checks panic unless the buffer has 20 bytes.
\<close>

definition ReadMessage ::
  "'s reader \<Rightarrow> 's \<Rightarrow> byte list \<Rightarrow> (byte list \<times> int \<times> int) result \<times> 's" where
  "ReadMessage rd s headersBuf =
     (case rd s (length headersBuf) of
        ((d, Some e), s1) \<Rightarrow> (Failed e, s1)
      | ((d, None), s1) \<Rightarrow>
          (let hb = copy_into headersBuf d in
           if length hb < 20 then (Panic, s1)
           else
             (let offset = sint (Uint64 (drop 0 hb));
                  timestamp = sint (Uint64 (drop 8 hb));
                  size = Uint32 (drop 16 hb);
                  buf = replicate (unat size) (0 :: byte)
              in case rd s1 (length buf) of
                   ((d2, Some e), s2) \<Rightarrow> (Failed e, s2)
                 | ((d2, None), s2) \<Rightarrow> (Ok (copy_into buf d2, offset, timestamp), s2))))"

text \<open>
  Two byte sources over a list of pending bytes. \<open>fillReader\<close> fills the buffer, or
  copies what is left and reports EndOfStream. \<open>sliceReader\<close> is Go's \<open>bytes.Reader\<close>: it
  copies what is left, without an error unless nothing is left.
\<close>

definition fillReader :: "byte list reader" where
  "fillReader s len =
     (if len \<le> length s then ((take len s, None), drop len s) else ((s, Some EOF), []))"

definition sliceReader :: "byte list reader" where
  "sliceReader s len =
     (if s = [] then (([], Some EOF), []) else ((take len s, None), drop len s))"

subsection \<open>Segments and the commit log\<close>

record Entry =
  Position :: int
  Size :: int

text \<open>
  Modelled from the spec: the type \<open>Segment\<close> is not in the source files. Section 4.3 lists
  what the readers use of it: the base offset, the positional read (bytes copied and an
  optional error, for a buffer length and a position), the index lookup, and the waiter
  set. The two methods are fields, so that every theorem below holds for whatever the
  storage layer does, a storage error included.
\<close>

record Segment =
  BaseOffset :: int
  ReadAt :: "nat \<Rightarrow> int \<Rightarrow> byte list \<times> error option"
  findEntry :: "int \<Rightarrow> error + Entry"
  waiters :: "nat set"

text \<open>A read into a slice of length \<open>len\<close> copies at most \<open>len\<close> bytes.\<close>

definition Segment_ReadAt :: "Segment \<Rightarrow> nat \<Rightarrow> int \<Rightarrow> byte list \<times> error option" where
  "Segment_ReadAt s len pos = (case ReadAt s len pos of (d, e) \<Rightarrow> (take len d, e))"

text \<open>
  Modelled from the spec: the type \<open>CommitLog\<close> is not in the source files. Section 4.4
  lists what the readers use of it: the segment list snapshot, the high watermark, the
  oldest offset and the set of HW waiters. \<open>store\<close> holds the segment objects by address.
\<close>

record CommitLog =
  store :: "nat \<Rightarrow> Segment"
  Segments :: "nat list"
  HighWatermark :: int
  OldestOffset :: int
  hwWaiters :: "nat set"

text \<open>
  Modelled from the spec (section 4.2): \<open>findSegment\<close> returns the segment covering the
  offset, the one with the greatest base not above it in a list ordered by base, and its
  index; none if the offset precedes the earliest base.
\<close>

fun findSegment :: "(nat \<Rightarrow> Segment) \<Rightarrow> nat list \<Rightarrow> int \<Rightarrow> (nat \<times> nat) option" where
  "findSegment st [] offset = None"
| "findSegment st (a # as) offset =
     (if offset < BaseOffset (st a) then None
      else (case findSegment st as offset of
              None \<Rightarrow> Some (a, 0)
            | Some (b, i) \<Rightarrow> Some (b, Suc i)))"

text \<open>
  Modelled from the spec (section 4.2): \<open>findSegmentByBaseOffset\<close> returns the segment
  whose base equals the given base.
\<close>

definition findSegmentByBaseOffset :: "(nat \<Rightarrow> Segment) \<Rightarrow> nat list \<Rightarrow> int \<Rightarrow> nat option" where
  "findSegmentByBaseOffset st segments base = find (\<lambda>a. BaseOffset (st a) = base) segments"

text \<open>
  Modelled from the spec (sections 4.3 and 4.4): registering and removing a waiter, in
  the segment at address \<open>a\<close> or in the log. The position and the last seen HW given
  with a registration say when the handle is due; whether it fires is the environment's
  move (the signals below). Removal is idempotent.
\<close>

definition Segment_waitForData :: "nat \<Rightarrow> nat \<Rightarrow> int \<Rightarrow> CommitLog \<Rightarrow> CommitLog" where
  "Segment_waitForData a w position l =
     l\<lparr>store := (store l)(a := (store l a)\<lparr>waiters := insert w (waiters (store l a))\<rparr>)\<rparr>"

definition Segment_removeWaiter :: "nat \<Rightarrow> nat \<Rightarrow> CommitLog \<Rightarrow> CommitLog" where
  "Segment_removeWaiter a w l =
     l\<lparr>store := (store l)(a := (store l a)\<lparr>waiters := waiters (store l a) - {w}\<rparr>)\<rparr>"

definition CommitLog_waitForHW :: "nat \<Rightarrow> int \<Rightarrow> CommitLog \<Rightarrow> CommitLog" where
  "CommitLog_waitForHW w lastSeen l = l\<lparr>hwWaiters := insert w (hwWaiters l)\<rparr>"

definition CommitLog_removeHWWaiter :: "nat \<Rightarrow> CommitLog \<Rightarrow> CommitLog" where
  "CommitLog_removeHWWaiter w l = l\<lparr>hwWaiters := hwWaiters l - {w}\<rparr>"

text \<open>
  A wait selects over three channels. What fires is the environment's choice: the log's
  \<open>closed\<close> broadcast, the reader's context, or the notification, after which the reader
  goes on in the log as the writers have left it. A \<open>Read\<close> call is given the signals
  that its waits will meet, in order; a wait with no signal left blocks for ever.
\<close>

datatype signal = Closed | Cancelled | Notified CommitLog

datatype 'r outcome =
    Returned (ret_n: nat) (ret_err: "error option") (ret_buf: "byte list")
             (ret_reader: 'r) (ret_log: CommitLog) (ret_signals: "signal list")
  | Panicked
  | Blocked

text \<open>\<open>fill p n d\<close> is the buffer \<open>p\<close> after \<open>d\<close> was copied into the slice \<open>p[n:]\<close>.\<close>

definition fill :: "byte list \<Rightarrow> nat \<Rightarrow> byte list \<Rightarrow> byte list" where
  "fill p n d = take n p @ d @ drop (n + length d) p"

datatype ('s, 'o) step = Continue 's | Break 'o

subsection \<open>UncommittedReader\<close>

text \<open>
  \<open>u_self\<close> is the reader's own address, the key under which it registers as a waiter.
  \<open>NewReaderUncommitted\<close> returns no reader with a nil segment and nothing else assigns
  the field, so \<open>u_seg\<close> is an address.
\<close>

record UncommittedReader =
  u_self :: nat
  u_seg :: nat
  u_pos :: int

text \<open>
  \<open>waitForData\<close> (lines 101 to 113) registers the reader with the segment and selects:
  on the close of the log or the end of the context it removes the waiter and returns
  false; on the notification it returns true.
\<close>

definition UncommittedReader_waitForData ::
  "UncommittedReader \<Rightarrow> nat \<Rightarrow> CommitLog \<Rightarrow> signal list \<Rightarrow> (bool \<times> CommitLog \<times> signal list) option" where
  "UncommittedReader_waitForData r a l sigs =
     (let l1 = Segment_waitForData a (u_self r) (u_pos r) l in
      case sigs of
        [] \<Rightarrow> None
      | Closed # rest \<Rightarrow> Some (False, Segment_removeWaiter a (u_self r) l1, rest)
      | Cancelled # rest \<Rightarrow> Some (False, Segment_removeWaiter a (u_self r) l1, rest)
      | Notified l' # rest \<Rightarrow> Some (True, l', rest))"

text \<open>\<open>NewReaderUncommitted\<close> (lines 117 to 132).\<close>

definition NewReaderUncommitted :: "CommitLog \<Rightarrow> nat \<Rightarrow> int \<Rightarrow> UncommittedReader result" where
  "NewReaderUncommitted l self offset =
     (case findSegment (store l) (Segments l) offset of
        None \<Rightarrow> Failed ErrSegmentNotFound
      | Some (seg, _) \<Rightarrow>
          (case findEntry (store l seg) offset of
             Inl err \<Rightarrow> Failed err
           | Inr e \<Rightarrow> Ok \<lparr>u_self = self, u_seg = seg, u_pos = Position e\<rparr>))"

text \<open>
  The inner loop \<open>for nextSeg == nil\<close> of \<open>Read\<close> (lines 88 to 94) does not assign
  \<open>nextSeg\<close>: entered with
  a nil \<open>nextSeg\<close>, it waits again after every notification and is left only through
  \<open>break LOOP\<close>, when a wait fails. The result is the log and the signals left at that
  moment, or \<open>None\<close> when the last wait never ends.
\<close>

function UncommittedReader_waitLoop ::
  "UncommittedReader \<Rightarrow> CommitLog \<Rightarrow> signal list \<Rightarrow> (CommitLog \<times> signal list) option" where
  "UncommittedReader_waitLoop r l sigs =
     (case UncommittedReader_waitForData r (u_seg r) l sigs of
        None \<Rightarrow> None
      | Some (False, l', sigs') \<Rightarrow> Some (l', sigs')
      | Some (True, l', sigs') \<Rightarrow> UncommittedReader_waitLoop r l' sigs')"
  by pat_completeness auto
termination
  by (relation "measure (\<lambda>(r, l, sigs). length sigs)")
     (auto simp: UncommittedReader_waitForData_def Let_def split: list.splits signal.splits)

declare UncommittedReader_waitLoop.simps [simp del]

type_synonym ustate =
  "UncommittedReader \<times> byte list \<times> nat \<times> nat list \<times> bool \<times> CommitLog \<times> signal list"

text \<open>
  One pass through the body of the loop \<open>LOOP\<close> of \<open>UncommittedReader.Read\<close> (lines 52
  to 95), from the state \<open>(r, p, n, segments, waiting)\<close>: it ends the call (\<open>Break\<close>,
  with what \<open>return n, err\<close> returns) or hands the next state to the loop. \<open>p[n:]\<close>
  panics when \<open>n\<close> exceeds the length of \<open>p\<close>. The branches follow the source: a hard
  error, a full buffer, progress, the end of the segment met for the first time (roll to
  the next segment at position 0, or wait), and the rest (refresh the snapshot, roll to
  the next segment or wait for ever).
\<close>

definition UncommittedReader_Read_body ::
  "UncommittedReader \<Rightarrow> byte list \<Rightarrow> nat \<Rightarrow> nat list \<Rightarrow> bool \<Rightarrow> CommitLog \<Rightarrow> signal list
     \<Rightarrow> (ustate, UncommittedReader outcome) step" where
  "UncommittedReader_Read_body r p n segments waiting l sigs =
     (if length p < n then Break Panicked
      else
        (case Segment_ReadAt (store l (u_seg r)) (length p - n) (u_pos r) of
           (d, err) \<Rightarrow>
             (let readSize = length d;
                  p1 = fill p n d;
                  n1 = n + readSize;
                  r1 = r\<lparr>u_pos := u_pos r + int readSize\<rparr>
              in
                if err \<noteq> None \<and> err \<noteq> Some EOF then Break (Returned n1 err p1 r1 l sigs)
                else if n1 = length p then Break (Returned n1 err p1 r1 l sigs)
                else if readSize \<noteq> 0 \<and> err = None then
                  Continue (r1, p1, n1, segments, False, l, sigs)
                else if err = Some EOF \<and> \<not> waiting then
                  (case findSegmentByBaseOffset (store l) segments
                          (BaseOffset (store l (u_seg r1)) + 1) of
                     Some nextSeg \<Rightarrow>
                       Continue (r1\<lparr>u_seg := nextSeg, u_pos := 0\<rparr>, p1, n1, segments, waiting, l, sigs)
                   | None \<Rightarrow>
                       (case UncommittedReader_waitForData r1 (u_seg r1) l sigs of
                          None \<Rightarrow> Break Blocked
                        | Some (False, l', sigs') \<Rightarrow> Break (Returned n1 (Some EOF) p1 r1 l' sigs')
                        | Some (True, l', sigs') \<Rightarrow>
                            Continue (r1, p1, n1, segments, True, l', sigs')))
                else
                  (let segments1 = Segments l in
                   case findSegmentByBaseOffset (store l) segments1
                          (BaseOffset (store l (u_seg r1)) + 1) of
                     None \<Rightarrow>
                       (case UncommittedReader_waitLoop r1 l sigs of
                          None \<Rightarrow> Break Blocked
                        | Some (l', sigs') \<Rightarrow> Break (Returned n1 (Some EOF) p1 r1 l' sigs'))
                   | Some nextSeg \<Rightarrow>
                       Continue (r1\<lparr>u_seg := nextSeg\<rparr>, p1, n1, segments1, waiting, l, sigs)))))"

text \<open>
  What decreases from one pass to the next: the signals left; then the segments, of the
  snapshot or of the log, whose base lies above the current one; then the room left in
  the buffer.
\<close>

definition segs_above :: "CommitLog \<Rightarrow> nat list \<Rightarrow> nat \<Rightarrow> nat set" where
  "segs_above l segments a =
     {b \<in> set segments \<union> set (Segments l). BaseOffset (store l a) < BaseOffset (store l b)}"

definition u_order :: "(ustate \<times> ustate) set" where
  "u_order = measures
     [\<lambda>(r, p, n, segments, waiting, l, sigs). length sigs,
      \<lambda>(r, p, n, segments, waiting, l, sigs). card (segs_above l segments (u_seg r)),
      \<lambda>(r, p, n, segments, waiting, l, sigs). length p - n]"

lemma fill_length: "n + length d \<le> length p \<Longrightarrow> length (fill p n d) = length p"
  by (simp add: fill_def)

lemma Segment_ReadAt_length: "Segment_ReadAt s len position = (d, e) \<Longrightarrow> length d \<le> len"
  by (auto simp: Segment_ReadAt_def split: prod.splits)

lemma findSegmentByBaseOffset_Some:
  "findSegmentByBaseOffset st segments b = Some a \<Longrightarrow> a \<in> set segments \<and> BaseOffset (st a) = b"
  by (auto simp: findSegmentByBaseOffset_def find_Some_iff)

lemma segs_above_roll:
  assumes "b \<in> set segments \<union> set (Segments l)"
    and "BaseOffset (store l b) = BaseOffset (store l a) + 1"
    and "set segments' \<subseteq> set segments \<union> set (Segments l)"
  shows "card (segs_above l segments' b) < card (segs_above l segments a)"
proof -
  have fin: "finite (segs_above l segments a)" by (simp add: segs_above_def)
  have sub: "segs_above l segments' b \<subseteq> segs_above l segments a"
    using assms by (auto simp: segs_above_def)
  have "b \<in> segs_above l segments a" "b \<notin> segs_above l segments' b"
    using assms by (auto simp: segs_above_def)
  with sub have "segs_above l segments' b \<subset> segs_above l segments a" by auto
  with fin show ?thesis by (rule psubset_card_mono)
qed

lemma waitForData_shorter:
  "UncommittedReader_waitForData r a l sigs = Some (b, l', sigs') \<Longrightarrow> length sigs' < length sigs"
  by (auto simp: UncommittedReader_waitForData_def Let_def split: list.splits signal.splits)

lemma UncommittedReader_Read_body_decreases:
  assumes "UncommittedReader_Read_body r p n segments waiting l sigs = Continue st'"
  shows "(st', (r, p, n, segments, waiting, l, sigs)) \<in> u_order"
proof -
  obtain d err where rd: "Segment_ReadAt (store l (u_seg r)) (length p - n) (u_pos r) = (d, err)"
    by (cases "Segment_ReadAt (store l (u_seg r)) (length p - n) (u_pos r)") auto
  from assms have le: "n \<le> length p"
    by (auto simp: UncommittedReader_Read_body_def split: if_splits)
  from rd have dl: "length d \<le> length p - n" by (rule Segment_ReadAt_length)
  with le have fl: "length (fill p n d) = length p" by (simp add: fill_length)
  have roll1: "card (segs_above l segments b) < card (segs_above l segments (u_seg r))"
    if "findSegmentByBaseOffset (store l) segments (BaseOffset (store l (u_seg r)) + 1) = Some b" for b
    using findSegmentByBaseOffset_Some [OF that] by (intro segs_above_roll) auto
  have roll2: "card (segs_above l (Segments l) b) < card (segs_above l segments (u_seg r))"
    if "findSegmentByBaseOffset (store l) (Segments l) (BaseOffset (store l (u_seg r)) + 1) = Some b" for b
    using findSegmentByBaseOffset_Some [OF that] by (intro segs_above_roll) auto
  have prog: "length p - (n + length d) < length p - n" if "d \<noteq> []" "n + length d \<noteq> length p"
  proof -
    from that have "0 < length d" by simp
    with le dl that show ?thesis by arith
  qed
  show ?thesis
    using assms fl roll1 roll2 prog
    unfolding UncommittedReader_Read_body_def u_order_def
    by (auto simp: rd Let_def split: if_splits option.splits bool.splits
          dest!: waitForData_shorter)
qed

text \<open>
  The loop \<open>LOOP\<close> of \<open>UncommittedReader.Read\<close>, and \<open>Read\<close> itself (lines 40 to 99),
  which enters the loop with no byte copied, the snapshot of the segment list and
  \<open>waiting\<close> false.
\<close>

function UncommittedReader_Read_loop ::
  "UncommittedReader \<Rightarrow> byte list \<Rightarrow> nat \<Rightarrow> nat list \<Rightarrow> bool \<Rightarrow> CommitLog \<Rightarrow> signal list
     \<Rightarrow> UncommittedReader outcome" where
  "UncommittedReader_Read_loop r p n segments waiting l sigs =
     (case UncommittedReader_Read_body r p n segments waiting l sigs of
        Break out \<Rightarrow> out
      | Continue (r', p', n', segments', waiting', l', sigs') \<Rightarrow>
          UncommittedReader_Read_loop r' p' n' segments' waiting' l' sigs')"
  by pat_completeness auto
termination
proof (relation "inv_image u_order (\<lambda>(r, p, n, segments, waiting, l, sigs). (r, p, n, segments, waiting, l, sigs))")
  show "wf (inv_image u_order (\<lambda>(r, p, n, segments, waiting, l, sigs). (r, p, n, segments, waiting, l, sigs)))"
    by (simp add: u_order_def)
next
  fix r p n segments waiting l sigs x2 r' x2a p' x2b n' x2c segments' x2d waiting' x2e l' sigs'
  assume "UncommittedReader_Read_body r p n segments waiting l sigs = Continue x2"
    and "(r', x2a) = x2" "(p', x2b) = x2a" "(n', x2c) = x2b" "(segments', x2d) = x2c"
    "(waiting', x2e) = x2d" "(l', sigs') = x2e"
  then have "UncommittedReader_Read_body r p n segments waiting l sigs
               = Continue (r', p', n', segments', waiting', l', sigs')"
    by auto
  from UncommittedReader_Read_body_decreases [OF this]
  show "((r', p', n', segments', waiting', l', sigs'), (r, p, n, segments, waiting, l, sigs))
          \<in> inv_image u_order (\<lambda>(r, p, n, segments, waiting, l, sigs). (r, p, n, segments, waiting, l, sigs))"
    by simp
qed

declare UncommittedReader_Read_loop.simps [simp del]

definition UncommittedReader_Read ::
  "UncommittedReader \<Rightarrow> byte list \<Rightarrow> CommitLog \<Rightarrow> signal list \<Rightarrow> UncommittedReader outcome" where
  "UncommittedReader_Read r p l sigs = UncommittedReader_Read_loop r p 0 (Segments l) False l sigs"





subsection \<open>CommittedReader\<close>

text \<open>\<open>getHWPos\<close> (lines 315 to 325) and \<open>min\<close> (lines 327 to 332).\<close>

definition getHWPos :: "(nat \<Rightarrow> Segment) \<Rightarrow> nat list \<Rightarrow> int \<Rightarrow> error + (nat \<times> int)" where
  "getHWPos st segments h =
     (case findSegment st segments h of
        None \<Rightarrow> Inl ErrSegmentNotFound
      | Some (hwSegment, hwIdx) \<Rightarrow>
          (case findEntry (st hwSegment) h of
             Inl err \<Rightarrow> Inl err
           | Inr hwEntry \<Rightarrow> Inr (hwIdx, Position hwEntry + Size hwEntry)))"

definition min_int64 :: "int \<Rightarrow> int \<Rightarrow> int" where
  "min_int64 x y = (if x < y then x else y)"

text \<open>
  \<open>c_self\<close> is the reader's own address, the key under which it registers as a waiter.
  A nil \<open>seg\<close> or \<open>hwSeg\<close> is \<open>None\<close>.
\<close>

record CommittedReader =
  c_self :: nat
  seg :: "nat option"
  hwSeg :: "nat option"
  pos :: int
  hwPos :: int
  hw :: int

text \<open>\<open>waitForHW\<close> (lines 246 to 258), as \<open>waitForData\<close> above.\<close>

definition CommittedReader_waitForHW ::
  "CommittedReader \<Rightarrow> int \<Rightarrow> CommitLog \<Rightarrow> signal list \<Rightarrow> (bool \<times> CommitLog \<times> signal list) option" where
  "CommittedReader_waitForHW r h l sigs =
     (let l1 = CommitLog_waitForHW (c_self r) h l in
      case sigs of
        [] \<Rightarrow> None
      | Closed # rest \<Rightarrow> Some (False, CommitLog_removeHWWaiter (c_self r) l1, rest)
      | Cancelled # rest \<Rightarrow> Some (False, CommitLog_removeHWWaiter (c_self r) l1, rest)
      | Notified l' # rest \<Rightarrow> Some (True, l', rest))"

text \<open>
  \<open>Read\<close> (lines 155 to 164) and \<open>readLoop\<close> (lines 223 to 232) both sample the HW and
  wait while it is the one the reader saw last
  (\<open>hw := r.cl.HighWatermark(); for hw == r.hw { ... }\<close>): the reader is parked for ever,
  a wait fails, or the loop ends with a new HW.
\<close>

datatype synced = Parked | GaveUp CommitLog "signal list" | Synced int CommitLog "signal list"

function CommittedReader_syncHW :: "CommittedReader \<Rightarrow> CommitLog \<Rightarrow> signal list \<Rightarrow> synced" where
  "CommittedReader_syncHW r l sigs =
     (let h = HighWatermark l in
      if h = hw r then
        (case CommittedReader_waitForHW r h l sigs of
           None \<Rightarrow> Parked
         | Some (False, l', sigs') \<Rightarrow> GaveUp l' sigs'
         | Some (True, l', sigs') \<Rightarrow> CommittedReader_syncHW r l' sigs')
      else Synced h l sigs)"
  by pat_completeness auto
termination
  by (relation "measure (\<lambda>(r, l, sigs). length sigs)")
     (auto simp: CommittedReader_waitForHW_def Let_def split: list.splits signal.splits)

declare CommittedReader_syncHW.simps [simp del]

type_synonym cstate =
  "CommittedReader \<times> byte list \<times> nat \<times> nat list \<times> CommitLog \<times> signal list"

text \<open>
  The slice bound of one pass of \<open>readLoop\<close>: the length of \<open>p\<close>, and in the HW segment
  no more than \<open>hwPos - pos\<close>.
\<close>

definition readLoop_lim :: "CommittedReader \<Rightarrow> byte list \<Rightarrow> int" where
  "readLoop_lim r p =
     (if seg r = hwSeg r then min_int64 (int (length p)) (hwPos r - pos r)
      else int (length p))"

text \<open>
  One pass through the body of the loop of \<open>CommittedReader.readLoop\<close> (lines 191 to
  240). The slice
  \<open>p[n:lim]\<close> panics when \<open>lim\<close> is below \<open>n\<close>. The \<open>err\<close> that \<open>getHWPos\<close> assigns at the
  end of the body is a new variable of the block (\<open>:=\<close>), so the \<open>break\<close> after it leaves
  the function's own \<open>err\<close> as it was.
\<close>

definition CommittedReader_readLoop_body ::
  "CommittedReader \<Rightarrow> byte list \<Rightarrow> nat \<Rightarrow> nat list \<Rightarrow> CommitLog \<Rightarrow> signal list
     \<Rightarrow> (cstate, CommittedReader outcome) step" where
  "CommittedReader_readLoop_body r p n segments l sigs =
     (let lim = readLoop_lim r p in
      if lim < int n then Break Panicked
      else
        (case seg r of
           None \<Rightarrow> Break Panicked
         | Some a \<Rightarrow>
             (case Segment_ReadAt (store l a) (nat (lim - int n)) (pos r) of
                (d, err) \<Rightarrow>
                  (let readSize = length d;
                       p1 = fill p n d;
                       n1 = n + readSize;
                       r1 = r\<lparr>pos := pos r + int readSize\<rparr>
                   in
                     if err \<noteq> None \<and> err \<noteq> Some EOF then Break (Returned n1 err p1 r1 l sigs)
                     else if n1 = length p then Break (Returned n1 err p1 r1 l sigs)
                     else if readSize \<noteq> 0 \<and> err = None then
                       Continue (r1, p1, n1, segments, l, sigs)
                     else if err = Some EOF then
                       (case findSegmentByBaseOffset (store l) segments
                               (BaseOffset (store l a) + 1) of
                          None \<Rightarrow> Break (Returned n1 (Some ErrNoSegmentToConsume) p1 r1 l sigs)
                        | Some nextSeg \<Rightarrow>
                            Continue (r1\<lparr>seg := Some nextSeg, pos := 0\<rparr>, p1, n1, segments, l, sigs))
                     else
                       (case CommittedReader_syncHW r1 l sigs of
                          Parked \<Rightarrow> Break Blocked
                        | GaveUp l' sigs' \<Rightarrow> Break (Returned n1 (Some EOF) p1 r1 l' sigs')
                        | Synced h l' sigs' \<Rightarrow>
                            (let r2 = r1\<lparr>hw := h\<rparr>;
                                 segments1 = Segments l'
                             in case getHWPos (store l') segments1 (hw r2) of
                                  Inl e \<Rightarrow> Break (Returned n1 err p1 r2 l' sigs')
                                | Inr (hwIdx, hwPos1) \<Rightarrow>
                                    if hwIdx < length segments1 then
                                      Continue (r2\<lparr>hwPos := hwPos1, hwSeg := Some (segments1 ! hwIdx)\<rparr>,
                                                p1, n1, segments1, l', sigs')
                                    else Break Panicked))))))"

text \<open>
  What decreases from one pass to the next: the signals left; then whether the reader's
  HW is behind the log's; then the segments above the current one; then the room left
  in the buffer.
\<close>

definition c_order :: "(cstate \<times> cstate) set" where
  "c_order = measures
     [\<lambda>(r, p, n, segments, l, sigs). length sigs,
      \<lambda>(r, p, n, segments, l, sigs). if hw r = HighWatermark l then 0 else 1,
      \<lambda>(r, p, n, segments, l, sigs).
         (case seg r of None \<Rightarrow> 0 | Some a \<Rightarrow> card (segs_above l segments a)),
      \<lambda>(r, p, n, segments, l, sigs). length p - n]"

lemma waitForHW_shorter:
  "CommittedReader_waitForHW r h l sigs = Some (b, l', sigs') \<Longrightarrow> length sigs' < length sigs"
  by (auto simp: CommittedReader_waitForHW_def Let_def split: list.splits signal.splits)

lemma syncHW_Synced:
  "CommittedReader_syncHW r l sigs = Synced h l' sigs' \<Longrightarrow>
     h = HighWatermark l' \<and> h \<noteq> hw r \<and> (length sigs' < length sigs \<or> (l' = l \<and> sigs' = sigs))"
proof (induction r l sigs rule: CommittedReader_syncHW.induct)
  case (1 r l sigs)
  show ?case
  proof (cases "HighWatermark l = hw r")
    case False
    with "1.prems" show ?thesis
      by (auto simp: CommittedReader_syncHW.simps [of r l sigs])
  next
    case True
    with "1.prems" obtain l1 sigs1 where
      w: "CommittedReader_waitForHW r (HighWatermark l) l sigs = Some (True, l1, sigs1)"
      and rec: "CommittedReader_syncHW r l1 sigs1 = Synced h l' sigs'"
      by (auto simp: CommittedReader_syncHW.simps [of r l sigs] split: option.splits bool.splits)
    from "1.IH" [OF refl True w refl refl refl rec]
    have "h = HighWatermark l' \<and> h \<noteq> hw r \<and> (length sigs' < length sigs1 \<or> (l' = l1 \<and> sigs' = sigs1))"
      by simp
    with waitForHW_shorter [OF w] show ?thesis by auto
  qed
qed

lemma CommittedReader_readLoop_body_decreases:
  assumes "CommittedReader_readLoop_body r p n segments l sigs = Continue st'"
  shows "(st', (r, p, n, segments, l, sigs)) \<in> c_order"
proof -
  from assms obtain a where a: "seg r = Some a"
    by (cases "seg r") (auto simp: CommittedReader_readLoop_body_def Let_def split: if_splits)
  from assms have le: "int n \<le> readLoop_lim r p"
    by (auto simp: CommittedReader_readLoop_body_def Let_def split: if_splits)
  have lim: "readLoop_lim r p \<le> int (length p)"
    by (simp add: readLoop_lim_def min_int64_def)
  obtain d err where rd:
    "Segment_ReadAt (store l a) (nat (readLoop_lim r p - int n)) (pos r) = (d, err)"
    by (cases "Segment_ReadAt (store l a) (nat (readLoop_lim r p - int n)) (pos r)") auto
  from rd have dl: "length d \<le> nat (readLoop_lim r p - int n)" by (rule Segment_ReadAt_length)
  with le lim have nd: "n + length d \<le> length p" by arith
  then have fl: "length (fill p n d) = length p" by (simp add: fill_length)
  have roll: "card (segs_above l segments b) < card (segs_above l segments a)"
    if "findSegmentByBaseOffset (store l) segments (BaseOffset (store l a) + 1) = Some b" for b
    using findSegmentByBaseOffset_Some [OF that] by (intro segs_above_roll) auto
  have prog: "length p - (n + length d) < length p - n" if "d \<noteq> []"
  proof -
    from that have "0 < length d" by simp
    with nd show ?thesis by arith
  qed
  show ?thesis
    using assms fl roll prog
    unfolding CommittedReader_readLoop_body_def c_order_def
    by (auto simp: a rd Let_def split: if_splits option.splits synced.splits sum.splits
          dest!: syncHW_Synced)
qed

text \<open>
  The loop of \<open>readLoop\<close> (lines 187 to 244), \<open>CommittedReader.Read\<close> (lines 145 to
  185) and the constructor \<open>NewReaderCommitted\<close> (lines 262 to 313). In \<open>Read\<close> the offset
  to resume at is computed from the HW the reader holds, before the HW is synced.
\<close>

function CommittedReader_readLoop ::
  "CommittedReader \<Rightarrow> byte list \<Rightarrow> nat \<Rightarrow> nat list \<Rightarrow> CommitLog \<Rightarrow> signal list
     \<Rightarrow> CommittedReader outcome" where
  "CommittedReader_readLoop r p n segments l sigs =
     (case CommittedReader_readLoop_body r p n segments l sigs of
        Break out \<Rightarrow> out
      | Continue (r', p', n', segments', l', sigs') \<Rightarrow>
          CommittedReader_readLoop r' p' n' segments' l' sigs')"
  by pat_completeness auto
termination
proof (relation "inv_image c_order (\<lambda>(r, p, n, segments, l, sigs). (r, p, n, segments, l, sigs))")
  show "wf (inv_image c_order (\<lambda>(r, p, n, segments, l, sigs). (r, p, n, segments, l, sigs)))"
    by (simp add: c_order_def)
next
  fix r p n segments l sigs x2 r' x2a p' x2b n' x2c segments' x2d l' sigs'
  assume "CommittedReader_readLoop_body r p n segments l sigs = Continue x2"
    and "(r', x2a) = x2" "(p', x2b) = x2a" "(n', x2c) = x2b" "(segments', x2d) = x2c"
    "(l', sigs') = x2d"
  then have "CommittedReader_readLoop_body r p n segments l sigs
               = Continue (r', p', n', segments', l', sigs')"
    by auto
  from CommittedReader_readLoop_body_decreases [OF this]
  show "((r', p', n', segments', l', sigs'), (r, p, n, segments, l, sigs))
          \<in> inv_image c_order (\<lambda>(r, p, n, segments, l, sigs). (r, p, n, segments, l, sigs))"
    by simp
qed

declare CommittedReader_readLoop.simps [simp del]

definition CommittedReader_Read ::
  "CommittedReader \<Rightarrow> byte list \<Rightarrow> CommitLog \<Rightarrow> signal list \<Rightarrow> CommittedReader outcome" where
  "CommittedReader_Read r p l sigs =
     (let segments = Segments l in
      if seg r = None then
        (let offset = hw r + 1 in
         case CommittedReader_syncHW r l sigs of
           Parked \<Rightarrow> Blocked
         | GaveUp l' sigs' \<Rightarrow> Returned 0 (Some EOF) p r l' sigs'
         | Synced h l' sigs' \<Rightarrow>
             (let r1 = r\<lparr>hw := h\<rparr>;
                  segments = Segments l'
              in case getHWPos (store l') segments (hw r1) of
                   Inl err \<Rightarrow> Returned 0 (Some err) p r1 l' sigs'
                 | Inr (hwIdx, hwPos1) \<Rightarrow>
                     if \<not> hwIdx < length segments then Panicked
                     else
                       (let r2 = r1\<lparr>hwSeg := Some (segments ! hwIdx), hwPos := hwPos1\<rparr> in
                        case findSegment (store l') segments offset of
                          None \<Rightarrow> Returned 0 (Some ErrSegmentNotFound) p (r2\<lparr>seg := None\<rparr>) l' sigs'
                        | Some (s, _) \<Rightarrow>
                            (let r3 = r2\<lparr>seg := Some s\<rparr> in
                             case findEntry (store l' s) offset of
                               Inl err \<Rightarrow> Returned 0 (Some err) p r3 l' sigs'
                             | Inr entry \<Rightarrow>
                                 CommittedReader_readLoop (r3\<lparr>pos := Position entry\<rparr>) p 0
                                   segments l' sigs'))))
      else CommittedReader_readLoop r p 0 segments l sigs)"




definition NewReaderCommitted :: "CommitLog \<Rightarrow> nat \<Rightarrow> int \<Rightarrow> CommittedReader result" where
  "NewReaderCommitted l self offset =
     (let h = HighWatermark l;
          segments = Segments l;
          cursor =
            (if h \<noteq> - 1 then
               (case getHWPos (store l) segments h of
                  Inl err \<Rightarrow> Failed err
                | Inr (hwIdx, hwPosition) \<Rightarrow>
                    if hwIdx < length segments then Ok (hwPosition, Some (segments ! hwIdx))
                    else Panic)
             else Ok (- 1, None))
      in case cursor of
           Failed err \<Rightarrow> Failed err
         | Panic \<Rightarrow> Panic
         | Ok (hwPos0, hwSeg0) \<Rightarrow>
             if offset > h then
               Ok \<lparr>c_self = self, seg = None, hwSeg = hwSeg0, pos = - 1, hwPos = hwPos0, hw = h\<rparr>
             else
               (let offset1 = (if offset < OldestOffset l then OldestOffset l else offset) in
                case findSegment (store l) segments offset1 of
                  None \<Rightarrow> Failed ErrSegmentNotFound
                | Some (s, _) \<Rightarrow>
                    (case findEntry (store l s) offset1 of
                       Inl err \<Rightarrow> Failed err
                     | Inr entry \<Rightarrow>
                         Ok \<lparr>c_self = self, seg = Some s, hwSeg = hwSeg0, pos = Position entry,
                             hwPos = hwPos0, hw = h\<rparr>)))"

text \<open>
  The specification calls an offset readable (section 3: with a HW of \<open>h\<close>, the offsets
  up to \<open>h\<close> are readable; section 4.4: the oldest offset is the smallest readable one).
  Here an offset is readable in a log when the two lookups of the readers find it: a
  segment of the list holds it and the index of that segment has its entry.
\<close>

definition readable :: "CommitLog \<Rightarrow> int \<Rightarrow> bool" where
  "readable l offset =
     (case findSegment (store l) (Segments l) offset of
        None \<Rightarrow> False
      | Some (s, i) \<Rightarrow> (case findEntry (store l s) offset of Inl e \<Rightarrow> False | Inr entry \<Rightarrow> True))"

subsection \<open>A log of framed records\<close>

text \<open>
  Modelled from the spec (sections 3, 4.3 and 6), for the concrete logs of the witnesses
  and counterexamples: a framed record is the 20-byte big-endian header (offset,
  timestamp, size) and the payload; a segment holds the frames of consecutive offsets
  from its base; its positional read returns EndOfStream when the position has reached
  the last written one and the bytes from the position otherwise; its index gives every
  offset the position and the size of its frame.
\<close>

definition put64 :: "64 word \<Rightarrow> byte list" where
  "put64 w = map (\<lambda>i. ucast (drop_bit (8 * i) w)) [7, 6, 5, 4, 3, 2, 1, 0]"

definition put32 :: "32 word \<Rightarrow> byte list" where
  "put32 w = map (\<lambda>i. ucast (drop_bit (8 * i) w)) [3, 2, 1, 0]"

definition frame :: "int \<Rightarrow> int \<Rightarrow> byte list \<Rightarrow> byte list" where
  "frame offset timestamp payload =
     put64 (word_of_int offset) @ put64 (word_of_int timestamp)
       @ put32 (word_of_nat (length payload)) @ payload"

definition file_ReadAt :: "byte list \<Rightarrow> nat \<Rightarrow> int \<Rightarrow> byte list \<times> error option" where
  "file_ReadAt bytes len position =
     (if int (length bytes) \<le> position then ([], Some EOF)
      else (take len (drop (nat position) bytes), None))"

fun index_of :: "int \<Rightarrow> int \<Rightarrow> byte list list \<Rightarrow> (int \<times> Entry) list" where
  "index_of offset position [] = []"
| "index_of offset position (f # fs) =
     (offset, \<lparr>Position = position, Size = int (length f)\<rparr>)
       # index_of (offset + 1) (position + int (length f)) fs"

definition index_findEntry :: "(int \<times> Entry) list \<Rightarrow> int \<Rightarrow> error + Entry" where
  "index_findEntry idx offset =
     (case map_of idx offset of None \<Rightarrow> Inl ErrOffsetOutOfRange | Some e \<Rightarrow> Inr e)"

definition fileSegment :: "int \<Rightarrow> byte list list \<Rightarrow> Segment" where
  "fileSegment base frames =
     \<lparr>BaseOffset = base, ReadAt = file_ReadAt (concat frames),
      findEntry = index_findEntry (index_of base 0 frames), waiters = {}\<rparr>"

text \<open>The log whose segment list holds the given segments, at the addresses 0, 1, ...\<close>

definition fileLog :: "Segment list \<Rightarrow> int \<Rightarrow> int \<Rightarrow> CommitLog" where
  "fileLog segs h oldest =
     \<lparr>store = (\<lambda>a. if a < length segs then segs ! a else fileSegment 0 []),
      Segments = [0..<length segs], HighWatermark = h, OldestOffset = oldest,
      hwWaiters = {}\<rparr>"

subsection \<open>Example logs and readers\<close>

text \<open>
  \<open>rec_frame k\<close> is the framed record of offset \<open>k\<close> with timestamp 0 and the one-byte
  payload "a": 21 bytes.
\<close>

definition rec_frame :: "int \<Rightarrow> byte list" where
  "rec_frame k = frame k 0 [97]"

text \<open>One segment with the record 0, committed.\<close>

definition log_one :: CommitLog where
  "log_one = fileLog [fileSegment 0 [rec_frame 0]] 0 0"

text \<open>Two records in one segment, and a HW of 5: the HW is ahead of what the log holds.\<close>

definition log_ahead :: CommitLog where
  "log_ahead = fileLog [fileSegment 0 [rec_frame 0, rec_frame 1]] 5 0"

text \<open>Two segments of bases 0 and 1, all three records committed.\<close>

definition log_two :: CommitLog where
  "log_two = fileLog [fileSegment 0 [rec_frame 0], fileSegment 1 [rec_frame 1, rec_frame 2]] 2 0"

text \<open>Two segments of bases 0 and 2: no segment has the base 1.\<close>

definition log_gap :: CommitLog where
  "log_gap = fileLog [fileSegment 0 [rec_frame 0, rec_frame 1], fileSegment 2 [rec_frame 2]] 2 0"

text \<open>Two records in one segment, the first one committed.\<close>

definition log_behind :: CommitLog where
  "log_behind = fileLog [fileSegment 0 [rec_frame 0, rec_frame 1]] 0 0"

text \<open>The empty log, and a log whose offsets 0 and 1 were trimmed.\<close>

definition log_empty :: CommitLog where
  "log_empty = fileLog [] (- 1) 0"

definition log_trimmed :: CommitLog where
  "log_trimmed = fileLog [fileSegment 2 [rec_frame 2, rec_frame 3]] 3 2"



text \<open>
  Committed readers: at the start of \<open>log_one\<close>; at the end of the first segment of
  \<open>log_two\<close> and of \<open>log_gap\<close>; at the HW of \<open>log_behind\<close>.
\<close>

definition rd_start :: CommittedReader where
  "rd_start = \<lparr>c_self = 7, seg = Some 0, hwSeg = Some 0, pos = 0, hwPos = 21, hw = 0\<rparr>"

definition rd_end :: CommittedReader where
  "rd_end = \<lparr>c_self = 7, seg = Some 0, hwSeg = Some 1, pos = 21, hwPos = 42, hw = 2\<rparr>"

definition rd_end_gap :: CommittedReader where
  "rd_end_gap = \<lparr>c_self = 7, seg = Some 0, hwSeg = Some 1, pos = 42, hwPos = 21, hw = 2\<rparr>"

definition rd_at_hw :: CommittedReader where
  "rd_at_hw = \<lparr>c_self = 7, seg = Some 0, hwSeg = Some 0, pos = 21, hwPos = 21, hw = 0\<rparr>"

text \<open>
  An uncommitted reader at the tail of \<open>log_one\<close>, and the log after a writer appended the
  record 1 and notified, with the reader still in the segment's waiter set.
\<close>

definition urd_tail :: UncommittedReader where
  "urd_tail = \<lparr>u_self = 7, u_seg = 0, u_pos = 21\<rparr>"

definition log_one_more :: CommitLog where
  "log_one_more = Segment_waitForData 0 7 21 (fileLog [fileSegment 0 [rec_frame 0, rec_frame 1]] 1 0)"




definition urd_start :: UncommittedReader where
  "urd_start = \<lparr>u_self = 7, u_seg = 0, u_pos = 0\<rparr>"

subsection \<open>Signals taken and bytes kept\<close>






section \<open>Properties\<close>

subsection \<open>Helper facts\<close>

lemma length_rec_frame [simp]: "length (rec_frame k) = 21"
  by (simp add: rec_frame_def frame_def put64_def put32_def)

lemmas ex_defs = log_one_def log_ahead_def log_two_def log_gap_def log_behind_def log_empty_def log_trimmed_def
  rd_start_def rd_end_def rd_end_gap_def rd_at_hw_def
  fileLog_def fileSegment_def file_ReadAt_def Segment_ReadAt_def index_findEntry_def
  readLoop_lim_def min_int64_def findSegmentByBaseOffset_def getHWPos_def

lemma frame_5_9_123: "frame 5 9 [1, 2, 3] = [0,0,0,0,0,0,0,5, 0,0,0,0,0,0,0,9, 0,0,0,3, 1, 2, 3]"
  by (simp add: frame_def put64_def put32_def)

lemma readLoop_body_read:
  assumes "seg r = Some a" and "int n \<le> readLoop_lim r p"
    and "Segment_ReadAt (store l a) (nat (readLoop_lim r p - int n)) (pos r) = (d, err)"
  shows "CommittedReader_readLoop_body r p n segments l sigs =
     (let readSize = length d;
          p1 = fill p n d;
          n1 = n + readSize;
          r1 = r\<lparr>pos := pos r + int readSize\<rparr>
      in
        if err \<noteq> None \<and> err \<noteq> Some EOF then Break (Returned n1 err p1 r1 l sigs)
        else if n1 = length p then Break (Returned n1 err p1 r1 l sigs)
        else if readSize \<noteq> 0 \<and> err = None then
          Continue (r1, p1, n1, segments, l, sigs)
        else if err = Some EOF then
          (case findSegmentByBaseOffset (store l) segments
                  (BaseOffset (store l a) + 1) of
             None \<Rightarrow> Break (Returned n1 (Some ErrNoSegmentToConsume) p1 r1 l sigs)
           | Some nextSeg \<Rightarrow>
               Continue (r1\<lparr>seg := Some nextSeg, pos := 0\<rparr>, p1, n1, segments, l, sigs))
        else
          (case CommittedReader_syncHW r1 l sigs of
             Parked \<Rightarrow> Break Blocked
           | GaveUp l' sigs' \<Rightarrow> Break (Returned n1 (Some EOF) p1 r1 l' sigs')
           | Synced h l' sigs' \<Rightarrow>
               (let r2 = r1\<lparr>hw := h\<rparr>;
                    segments1 = Segments l'
                in case getHWPos (store l') segments1 (hw r2) of
                     Inl e \<Rightarrow> Break (Returned n1 err p1 r2 l' sigs')
                   | Inr (hwIdx, hwPos1) \<Rightarrow>
                       if hwIdx < length segments1 then
                         Continue (r2\<lparr>hwPos := hwPos1, hwSeg := Some (segments1 ! hwIdx)\<rparr>,
                                   p1, n1, segments1, l', sigs')
                       else Break Panicked)))"
  using assms by (simp add: CommittedReader_readLoop_body_def Let_def)

lemma findSegment_index:
  "findSegment st segments offset = Some (a, i) \<Longrightarrow> i < length segments \<and> segments ! i = a"
  by (induction segments arbitrary: a i) (auto split: if_splits option.splits)

















































lemma readable_lookups:
  "readable l offset \<Longrightarrow>
     \<exists>s i entry. findSegment (store l) (Segments l) offset = Some (s, i)
        \<and> findEntry (store l s) offset = Inr entry"
  by (auto simp: readable_def split: option.splits sum.splits)

subsection \<open>The claims\<close>




text \<open>
  C2. The claim holds of the roll at lines 69 to 73, which sets the position to 0, and
  fails of the one at line 95, which keeps the position of the segment left behind. A
  reader waits at the tail of the first segment, 21 bytes long; it is woken once the log
  has a second segment with the records 1 and 2; it moves there at position 21 and
  delivers the record 2 after the record 0. The record 1 is never delivered.
\<close>

theorem UncommittedReader_skips_a_record:
  "NewReaderUncommitted log_one 7 0 = Ok urd_start
   \<and> UncommittedReader_Read urd_start (replicate 42 0) log_one [Notified log_two] =
       Returned 42 None (rec_frame 0 @ rec_frame 2) (urd_start\<lparr>u_seg := 1, u_pos := 42\<rparr>) log_two []"
proof -
  have c: "NewReaderUncommitted log_one 7 0 = Ok urd_start"
    by (simp add: NewReaderUncommitted_def urd_start_def ex_defs Let_def)
  have "UncommittedReader_Read urd_start (replicate 42 0) log_one [Notified log_two] =
       Returned 42 None (rec_frame 0 @ rec_frame 2) (urd_start\<lparr>u_seg := 1, u_pos := 42\<rparr>) log_two []"
    apply (simp add: UncommittedReader_Read_def urd_start_def Let_def)
    apply (subst UncommittedReader_Read_loop.simps)
    apply (simp add: UncommittedReader_Read_body_def ex_defs fill_def Let_def)
    apply (subst UncommittedReader_Read_loop.simps)
    apply (simp add: UncommittedReader_Read_body_def UncommittedReader_waitForData_def ex_defs fill_def Let_def)
    apply (subst UncommittedReader_Read_loop.simps)
    apply (simp add: UncommittedReader_Read_body_def ex_defs fill_def Let_def)
    apply (subst UncommittedReader_Read_loop.simps)
    apply (simp add: UncommittedReader_Read_body_def ex_defs fill_def Let_def)
    done
  with c show ?thesis by simp
qed




text \<open>
  C4, as amended. \<open>ReadMessage\<close> calls \<open>Read\<close> once for the header buffer and once for a
  fresh zeroed payload buffer of \<open>size\<close> bytes, and returns whatever error either call
  reports, EndOfStream included, unchanged. When the header buffer has 20 bytes and each
  call fills its buffer, it returns the payload with the offset and the timestamp decoded
  big-endian from the header. When a call returns fewer bytes than asked and no error,
  \<open>ReadMessage\<close> does not read on: it decodes the header buffer as the first call left
  it, the bytes delivered followed by the rest of the buffer as it was, and returns the
  payload buffer as the second call left it, the bytes delivered followed by zeros.
\<close>

theorem ReadMessage_reads_once_each:
  "(rd s (length hb) = ((d, Some e), s1) \<longrightarrow> ReadMessage rd s hb = (Failed e, s1))
   \<and> (rd s (length hb) = ((d, None), s1) \<and> 20 \<le> length hb
        \<and> rd s1 (unat (Uint32 (drop 16 (copy_into hb d)))) = ((d2, Some e), s2)
      \<longrightarrow> ReadMessage rd s hb = (Failed e, s2))
   \<and> (length hb = 20 \<and> rd s 20 = ((h, None), s1) \<and> length h = 20
        \<and> rd s1 (unat (Uint32 (drop 16 h))) = ((payload, None), s2)
        \<and> length payload = unat (Uint32 (drop 16 h))
      \<longrightarrow> ReadMessage rd s hb = (Ok (payload, sint (Uint64 h), sint (Uint64 (drop 8 h))), s2))
   \<and> (20 \<le> length hb \<and> rd s (length hb) = ((d, None), s1) \<and> length d \<le> length hb
        \<and> h = d @ drop (length d) hb
        \<and> rd s1 (unat (Uint32 (drop 16 h))) = ((d2, None), s2)
        \<and> length d2 \<le> unat (Uint32 (drop 16 h))
      \<longrightarrow> ReadMessage rd s hb =
            (Ok (d2 @ replicate (unat (Uint32 (drop 16 h)) - length d2) 0,
                 sint (Uint64 h), sint (Uint64 (drop 8 h))), s2))"
  by (auto simp: ReadMessage_def copy_into_def Let_def)

text \<open>
  The claim as stated fails for a source that may return fewer bytes than asked without
  an error: from a \<open>bytes.Reader\<close> over a header announcing three payload bytes and one
  payload byte, \<open>ReadMessage\<close> returns a zero-padded payload and no error, although the
  source ends before the payload is complete.
\<close>

theorem ReadMessage_counterexample:
  "ReadMessage sliceReader (take 21 (frame 5 9 [1, 2, 3])) (replicate 20 0) = (Ok ([1, 0, 0], 5, 9), [])
   \<and> sliceReader [] 2 = (([], Some EOF), [])"
proof -
  have rep: "replicate 3 (0::byte) = [0, 0, 0]" "replicate 2 (0::byte) = [0, 0]"
    by (simp_all add: numeral_3_eq_3 numeral_2_eq_2)
  show ?thesis
    by (simp add: ReadMessage_def sliceReader_def copy_into_def frame_5_9_123 Uint64_def Uint32_def Let_def rep)
qed

theorem ReadMessage_reads_once_each_witness:
  "ReadMessage fillReader (frame 5 9 [1, 2, 3] @ [42]) (replicate 20 0) = (Ok ([1, 2, 3], 5, 9), [42])
   \<and> ReadMessage fillReader (take 21 (frame 5 9 [1, 2, 3])) (replicate 20 0) = (Failed EOF, [])
   \<and> ReadMessage fillReader [] (replicate 20 0) = (Failed EOF, [])
   \<and> ReadMessage sliceReader (take 22 (frame 5 9 [1, 2, 3])) (replicate 20 0) = (Ok ([1, 2, 0], 5, 9), [])"
proof -
  let ?h = "take 20 (frame 5 9 [1, 2, 3])"
  have a1: "length (replicate 20 (0::byte)) = 20" by simp
  have a2: "fillReader (frame 5 9 [1, 2, 3] @ [42]) 20 = ((?h, None), [1, 2, 3, 42])"
    by (simp add: fillReader_def frame_5_9_123)
  have a3: "length ?h = 20" by (simp add: frame_5_9_123)
  have a4: "fillReader [1, 2, 3, 42] (unat (Uint32 (drop 16 ?h))) = (([1, 2, 3], None), [42])"
    by (simp add: fillReader_def frame_5_9_123 Uint32_def)
  have a5: "length [1, 2, 3 :: byte] = unat (Uint32 (drop 16 ?h))"
    by (simp add: frame_5_9_123 Uint32_def)
  have b1: "fillReader (take 21 (frame 5 9 [1, 2, 3])) (length (replicate 20 (0::byte))) = ((?h, None), [1])"
    by (simp add: fillReader_def frame_5_9_123)
  have b2: "20 \<le> length (replicate 20 (0::byte))" by simp
  have b3: "fillReader [1] (unat (Uint32 (drop 16 (copy_into (replicate 20 0) ?h)))) = (([1], Some EOF), [])"
    by (simp add: fillReader_def frame_5_9_123 Uint32_def copy_into_def)
  have c1: "fillReader [] (length (replicate 20 (0::byte))) = (([], Some EOF), [])"
    by (simp add: fillReader_def)
  have d1: "sliceReader (take 22 (frame 5 9 [1, 2, 3])) (length (replicate 20 (0::byte))) = ((?h, None), [1, 2])"
    by (simp add: sliceReader_def frame_5_9_123)
  have d2: "length ?h \<le> length (replicate 20 (0::byte))" by (simp add: frame_5_9_123)
  have d3: "?h = ?h @ drop (length ?h) (replicate 20 (0::byte))" by (simp add: frame_5_9_123)
  have d4: "sliceReader [1, 2] (unat (Uint32 (drop 16 ?h))) = (([1, 2], None), [])"
    by (simp add: sliceReader_def frame_5_9_123 Uint32_def)
  have d5: "length [1, 2 :: byte] \<le> unat (Uint32 (drop 16 ?h))"
    by (simp add: frame_5_9_123 Uint32_def)
  have sz: "unat (Uint32 (drop 16 ?h)) - length [1, 2 :: byte] = Suc 0"
    by (simp add: frame_5_9_123 Uint32_def)
  note T = ReadMessage_reads_once_each
  from T [where rd = fillReader and s = "frame 5 9 [1, 2, 3] @ [42]" and hb = "replicate 20 0"
      and h = ?h and ?s1.0 = "[1, 2, 3, 42]" and payload = "[1, 2, 3]" and ?s2.0 = "[42]",
      THEN conjunct2, THEN conjunct2, THEN conjunct1]
    a1 a2 a3 a4 a5
  have r1: "ReadMessage fillReader (frame 5 9 [1, 2, 3] @ [42]) (replicate 20 0) = (Ok ([1, 2, 3], 5, 9), [42])"
    by (simp add: frame_5_9_123 Uint64_def)
  from T [where rd = fillReader and s = "take 21 (frame 5 9 [1, 2, 3])" and hb = "replicate 20 0"
      and d = ?h and ?s1.0 = "[1]" and ?d2.0 = "[1]" and e = EOF and ?s2.0 = "[]",
      THEN conjunct2, THEN conjunct1] b1 b2 b3
  have r2: "ReadMessage fillReader (take 21 (frame 5 9 [1, 2, 3])) (replicate 20 0) = (Failed EOF, [])"
    by simp
  from T [where rd = fillReader and s = "[]" and hb = "replicate 20 0" and d = "[]" and e = EOF
      and ?s1.0 = "[]", THEN conjunct1] c1
  have r3: "ReadMessage fillReader [] (replicate 20 0) = (Failed EOF, [])"
    by simp
  have "ReadMessage sliceReader (take 22 (frame 5 9 [1, 2, 3])) (replicate 20 0) =
            (Ok ([1, 2] @ replicate (unat (Uint32 (drop 16 ?h)) - length [1, 2 :: byte]) 0,
                 sint (Uint64 ?h), sint (Uint64 (drop 8 ?h))), [])"
    by (rule T [where rd = sliceReader and s = "take 22 (frame 5 9 [1, 2, 3])" and hb = "replicate 20 0"
      and d = ?h and h = ?h and ?s1.0 = "[1, 2]" and ?d2.0 = "[1, 2]" and ?s2.0 = "[]",
      THEN conjunct2, THEN conjunct2, THEN conjunct2, THEN mp, OF conjI [OF b2 conjI [OF d1 conjI [OF d2 conjI [OF d3 conjI [OF d4 d5]]]]]])
  then have r4: "ReadMessage sliceReader (take 22 (frame 5 9 [1, 2, 3])) (replicate 20 0) = (Ok ([1, 2, 0], 5, 9), [])"
    unfolding sz by (simp add: frame_5_9_123 Uint64_def)
  from r1 r2 r3 r4 show ?thesis by simp
qed




text \<open>
  C6. For a log in which the offsets from the oldest one to the HW are readable and whose
  HW, when there is one, is not below the oldest offset, and for every non-negative
  offset: \<open>NewReaderCommitted\<close> succeeds. The reader retains the HW and its cursor, the
  segment of the HW and the position after the HW record (none and -1 for the empty log
  of HW -1). For an offset above the HW the reader is in waiting state, \<open>seg\<close> nil and
  \<open>pos\<close> -1. Any other offset is raised to the oldest offset if smaller, and the reader
  is in reading state at the segment that holds it and the position of its entry.
\<close>

theorem NewReaderCommitted_states:
  assumes "0 \<le> offset"
    and "\<forall>k. OldestOffset l \<le> k \<and> k \<le> HighWatermark l \<longrightarrow> readable l k"
    and "HighWatermark l \<noteq> - 1 \<longrightarrow> OldestOffset l \<le> HighWatermark l"
  shows "\<exists>hs hp.
           (HighWatermark l = - 1 \<and> hs = None \<and> hp = - 1
            \<or> HighWatermark l \<noteq> - 1
              \<and> (\<exists>i. getHWPos (store l) (Segments l) (HighWatermark l) = Inr (i, hp)
                    \<and> hs = Some (Segments l ! i)))
           \<and> (HighWatermark l < offset \<longrightarrow>
                NewReaderCommitted l self offset =
                  Ok \<lparr>c_self = self, seg = None, hwSeg = hs, pos = - 1, hwPos = hp,
                      hw = HighWatermark l\<rparr>)
           \<and> (offset \<le> HighWatermark l \<longrightarrow>
                (\<exists>s j entry.
                   findSegment (store l) (Segments l) (max offset (OldestOffset l)) = Some (s, j)
                   \<and> findEntry (store l s) (max offset (OldestOffset l)) = Inr entry
                   \<and> NewReaderCommitted l self offset =
                       Ok \<lparr>c_self = self, seg = Some s, hwSeg = hs, pos = Position entry,
                           hwPos = hp, hw = HighWatermark l\<rparr>))"
proof -
  have m: "(if offset < OldestOffset l then OldestOffset l else offset) = max offset (OldestOffset l)"
    by (simp add: max_def)
  have rd: "offset \<le> HighWatermark l \<Longrightarrow>
      \<exists>s j entry. findSegment (store l) (Segments l) (max offset (OldestOffset l)) = Some (s, j)
        \<and> findEntry (store l s) (max offset (OldestOffset l)) = Inr entry"
  proof -
    assume le: "offset \<le> HighWatermark l"
    with assms(1) have "HighWatermark l \<noteq> - 1" by arith
    with assms(3) have "OldestOffset l \<le> HighWatermark l" by simp
    with le have "OldestOffset l \<le> max offset (OldestOffset l)
        \<and> max offset (OldestOffset l) \<le> HighWatermark l" by simp
    with assms(2) have "readable l (max offset (OldestOffset l))" by blast
    then show ?thesis by (rule readable_lookups)
  qed
  show ?thesis
  proof (cases "HighWatermark l = - 1")
    case True
    with assms(1) have "\<not> offset \<le> HighWatermark l" by arith
    with True show ?thesis
      by (auto simp: NewReaderCommitted_def Let_def)
  next
    case False
    with assms(3) have "OldestOffset l \<le> HighWatermark l" by simp
    with assms(2) have "readable l (HighWatermark l)" by simp
    then obtain s i entry where fs: "findSegment (store l) (Segments l) (HighWatermark l) = Some (s, i)"
      and fe: "findEntry (store l s) (HighWatermark l) = Inr entry"
      by (blast dest: readable_lookups)
    then have g: "getHWPos (store l) (Segments l) (HighWatermark l) = Inr (i, Position entry + Size entry)"
      by (simp add: getHWPos_def)
    from findSegment_index [OF fs] have i: "i < length (Segments l)" by simp
    show ?thesis
    proof (intro exI [of _ "Some (Segments l ! i)"] exI [of _ "Position entry + Size entry"] conjI impI)
      from False g show "HighWatermark l = - 1 \<and> Some (Segments l ! i) = None \<and> Position entry + Size entry = - 1
            \<or> HighWatermark l \<noteq> - 1
              \<and> (\<exists>ia. getHWPos (store l) (Segments l) (HighWatermark l) = Inr (ia, Position entry + Size entry)
                    \<and> Some (Segments l ! i) = Some (Segments l ! ia))"
        by blast
    next
      assume "HighWatermark l < offset"
      with False g i show "NewReaderCommitted l self offset =
                  Ok \<lparr>c_self = self, seg = None, hwSeg = Some (Segments l ! i), pos = - 1,
                      hwPos = Position entry + Size entry, hw = HighWatermark l\<rparr>"
        by (simp add: NewReaderCommitted_def Let_def)
    next
      assume le: "offset \<le> HighWatermark l"
      from rd [OF le] obtain s' j e' where
        a: "findSegment (store l) (Segments l) (max offset (OldestOffset l)) = Some (s', j)"
        and b: "findEntry (store l s') (max offset (OldestOffset l)) = Inr e'" by blast
      from le False g i a b have "NewReaderCommitted l self offset =
                       Ok \<lparr>c_self = self, seg = Some s', hwSeg = Some (Segments l ! i), pos = Position e',
                           hwPos = Position entry + Size entry, hw = HighWatermark l\<rparr>"
        unfolding NewReaderCommitted_def Let_def m by simp
      with a b show "\<exists>s j entry'.
                   findSegment (store l) (Segments l) (max offset (OldestOffset l)) = Some (s, j)
                   \<and> findEntry (store l s) (max offset (OldestOffset l)) = Inr entry'
                   \<and> NewReaderCommitted l self offset =
                       Ok \<lparr>c_self = self, seg = Some s, hwSeg = Some (Segments l ! i), pos = Position entry',
                           hwPos = Position entry + Size entry, hw = HighWatermark l\<rparr>"
        by blast
    qed
  qed
qed

theorem NewReaderCommitted_states_witness:
  "NewReaderCommitted log_empty 7 0 =
       Ok \<lparr>c_self = 7, seg = None, hwSeg = None, pos = - 1, hwPos = - 1, hw = - 1\<rparr>
   \<and> NewReaderCommitted log_behind 7 1 =
       Ok \<lparr>c_self = 7, seg = None, hwSeg = Some 0, pos = - 1, hwPos = 21, hw = 0\<rparr>
   \<and> NewReaderCommitted log_trimmed 7 0 =
       Ok \<lparr>c_self = 7, seg = Some 0, hwSeg = Some 0, pos = 0, hwPos = 42, hw = 3\<rparr>
   \<and> NewReaderCommitted log_trimmed 7 3 =
       Ok \<lparr>c_self = 7, seg = Some 0, hwSeg = Some 0, pos = 21, hwPos = 42, hw = 3\<rparr>"
proof -
  note T = NewReaderCommitted_states
  have e1: "\<forall>k. OldestOffset log_empty \<le> k \<and> k \<le> HighWatermark log_empty \<longrightarrow> readable log_empty k"
    by (auto simp: ex_defs)
  have e2: "HighWatermark log_empty \<noteq> - 1 \<longrightarrow> OldestOffset log_empty \<le> HighWatermark log_empty"
    by (simp add: ex_defs)
  have b1: "\<forall>k. OldestOffset log_behind \<le> k \<and> k \<le> HighWatermark log_behind \<longrightarrow> readable log_behind k"
  proof (intro allI impI)
    fix k assume "OldestOffset log_behind \<le> k \<and> k \<le> HighWatermark log_behind"
    then have "k = 0" by (auto simp: ex_defs)
    then show "readable log_behind k" by (simp add: readable_def ex_defs)
  qed
  have b2: "HighWatermark log_behind \<noteq> - 1 \<longrightarrow> OldestOffset log_behind \<le> HighWatermark log_behind"
    by (simp add: ex_defs)
  have t1: "\<forall>k. OldestOffset log_trimmed \<le> k \<and> k \<le> HighWatermark log_trimmed \<longrightarrow> readable log_trimmed k"
  proof (intro allI impI)
    fix k assume "OldestOffset log_trimmed \<le> k \<and> k \<le> HighWatermark log_trimmed"
    then have "k = 2 \<or> k = 3" by (auto simp: ex_defs)
    then show "readable log_trimmed k" by (auto simp: readable_def ex_defs)
  qed
  have t2: "HighWatermark log_trimmed \<noteq> - 1 \<longrightarrow> OldestOffset log_trimmed \<le> HighWatermark log_trimmed"
    by (simp add: ex_defs)
  have hw: "HighWatermark log_empty = - 1" "HighWatermark log_behind = 0" "HighWatermark log_trimmed = 3"
    by (simp_all add: ex_defs)
  have g: "getHWPos (store log_behind) (Segments log_behind) 0 = Inr (0, 21)"
    "getHWPos (store log_trimmed) (Segments log_trimmed) 3 = Inr (0, 42)"
    "Segments log_behind ! 0 = 0" "Segments log_trimmed ! 0 = 0"
    by (simp_all add: ex_defs)
  have f: "findSegment (store log_trimmed) (Segments log_trimmed) (max 0 (OldestOffset log_trimmed)) = Some (0, 0)"
    "findEntry (store log_trimmed 0) (max 0 (OldestOffset log_trimmed)) = Inr \<lparr>Position = 0, Size = 21\<rparr>"
    "findSegment (store log_trimmed) (Segments log_trimmed) (max 3 (OldestOffset log_trimmed)) = Some (0, 0)"
    "findEntry (store log_trimmed 0) (max 3 (OldestOffset log_trimmed)) = Inr \<lparr>Position = 21, Size = 21\<rparr>"
    by (simp_all add: ex_defs)
  have z: "(0::int) \<le> 0" "(0::int) \<le> 1" "(0::int) \<le> 3" by simp_all
  from T [where l = log_empty and offset = 0 and self = 7, OF z(1) e1 e2]
  have r1: "NewReaderCommitted log_empty 7 0 =
       Ok \<lparr>c_self = 7, seg = None, hwSeg = None, pos = - 1, hwPos = - 1, hw = - 1\<rparr>"
    by (auto simp: hw)
  from T [where l = log_behind and offset = 1 and self = 7, OF z(2) b1 b2]
  have r2: "NewReaderCommitted log_behind 7 1 =
       Ok \<lparr>c_self = 7, seg = None, hwSeg = Some 0, pos = - 1, hwPos = 21, hw = 0\<rparr>"
    by (auto simp: hw g)
  from T [where l = log_trimmed and offset = 0 and self = 7, OF z(1) t1 t2]
  have r3: "NewReaderCommitted log_trimmed 7 0 =
       Ok \<lparr>c_self = 7, seg = Some 0, hwSeg = Some 0, pos = 0, hwPos = 42, hw = 3\<rparr>"
    by (auto simp: hw g f)
  from T [where l = log_trimmed and offset = 3 and self = 7, OF z(3) t1 t2]
  have r4: "NewReaderCommitted log_trimmed 7 3 =
       Ok \<lparr>c_self = 7, seg = Some 0, hwSeg = Some 0, pos = 21, hwPos = 42, hw = 3\<rparr>"
    by (auto simp: hw g f)
  from r1 r2 r3 r4 show ?thesis by simp
qed

text \<open>
  C7. In the read loop of \<open>CommittedReader\<close>, when the read of the segment reports
  EndOfStream and the buffer is not full, the reader looks for the segment of base
  \<open>base + 1\<close> in its snapshot: it goes on in that segment at position 0, or, when there is
  none, the call returns the error "no segment to consume" with the bytes counted so far,
  not EndOfStream.
\<close>

theorem readLoop_end_of_segment:
  assumes "seg r = Some a" and "int n \<le> readLoop_lim r p"
    and "Segment_ReadAt (store l a) (nat (readLoop_lim r p - int n)) (pos r) = (d, Some EOF)"
    and "n + length d \<noteq> length p"
  shows "case findSegmentByBaseOffset (store l) segments (BaseOffset (store l a) + 1) of
           None \<Rightarrow>
             CommittedReader_readLoop r p n segments l sigs =
               Returned (n + length d) (Some ErrNoSegmentToConsume) (fill p n d)
                 (r\<lparr>pos := pos r + int (length d)\<rparr>) l sigs
         | Some b \<Rightarrow>
             b \<in> set segments \<and> BaseOffset (store l b) = BaseOffset (store l a) + 1
             \<and> CommittedReader_readLoop r p n segments l sigs =
                 CommittedReader_readLoop (r\<lparr>seg := Some b, pos := 0\<rparr>) (fill p n d)
                   (n + length d) segments l sigs"
proof (cases "findSegmentByBaseOffset (store l) segments (BaseOffset (store l a) + 1)")
  case None
  with assms show ?thesis
    by (simp add: CommittedReader_readLoop.simps [of r p n] readLoop_body_read Let_def)
next
  case (Some b)
  from findSegmentByBaseOffset_Some [OF Some] Some assms show ?thesis
    by (simp add: CommittedReader_readLoop.simps [of r p n] readLoop_body_read Let_def)
qed

theorem readLoop_end_of_segment_witness:
  "CommittedReader_readLoop rd_end (replicate 21 0) 0 [0, 1] log_two [] =
     CommittedReader_readLoop (rd_end\<lparr>seg := Some 1, pos := 0\<rparr>) (replicate 21 0) 0 [0, 1] log_two []
   \<and> CommittedReader_readLoop rd_end_gap (replicate 21 0) 0 [0, 1] log_gap [] =
     Returned 0 (Some ErrNoSegmentToConsume) (replicate 21 0) rd_end_gap log_gap []"
proof -
  have a1: "seg rd_end = Some 0" by (simp add: rd_end_def)
  have a2: "int 0 \<le> readLoop_lim rd_end (replicate 21 0)" by (simp add: ex_defs)
  have a3: "Segment_ReadAt (store log_two 0) (nat (readLoop_lim rd_end (replicate 21 0) - int 0)) (pos rd_end)
              = ([], Some EOF)"
    by (simp add: ex_defs)
  have a4: "0 + length ([] :: byte list) \<noteq> length (replicate 21 (0 :: byte))" by simp
  have a5: "findSegmentByBaseOffset (store log_two) [0, 1] (BaseOffset (store log_two 0) + 1) = Some 1"
    by (simp add: ex_defs)
  have b1: "seg rd_end_gap = Some 0" by (simp add: rd_end_gap_def)
  have b2: "int 0 \<le> readLoop_lim rd_end_gap (replicate 21 0)" by (simp add: ex_defs)
  have b3: "Segment_ReadAt (store log_gap 0) (nat (readLoop_lim rd_end_gap (replicate 21 0) - int 0)) (pos rd_end_gap)
              = ([], Some EOF)"
    by (simp add: ex_defs)
  have b5: "findSegmentByBaseOffset (store log_gap) [0, 1] (BaseOffset (store log_gap 0) + 1) = None"
    by (simp add: ex_defs)
  from readLoop_end_of_segment [OF a1 a2 a3 a4, of "[0, 1]" "[]"] a5
  have r1: "CommittedReader_readLoop rd_end (replicate 21 0) 0 [0, 1] log_two [] =
     CommittedReader_readLoop (rd_end\<lparr>seg := Some 1, pos := 0\<rparr>) (replicate 21 0) 0 [0, 1] log_two []"
    by (simp add: fill_def)
  from readLoop_end_of_segment [OF b1 b2 b3 a4, of "[0, 1]" "[]"] b5
  have r2: "CommittedReader_readLoop rd_end_gap (replicate 21 0) 0 [0, 1] log_gap [] =
     Returned 0 (Some ErrNoSegmentToConsume) (replicate 21 0) rd_end_gap log_gap []"
    by (simp add: fill_def)
  from r1 r2 show ?thesis by simp
qed

text \<open>
  C8, as amended. When the log closes or the context is cancelled during a wait, the reader
  calls \<open>removeWaiter\<close> or \<open>removeHWWaiter\<close>: the wait fails and the reader is not in the
  waiter set afterwards. When the notification fires, the reader calls nothing: it goes on
  in the log as the notifier left it. Removing a waiter twice is removing it once.
\<close>

theorem wait_exit_deregistration:
  "(case UncommittedReader_waitForData ur a l (Closed # sigs) of
      None \<Rightarrow> False
    | Some (woken, l', sigs') \<Rightarrow> \<not> woken \<and> sigs' = sigs \<and> u_self ur \<notin> waiters (store l' a))
   \<and> (case UncommittedReader_waitForData ur a l (Cancelled # sigs) of
      None \<Rightarrow> False
    | Some (woken, l', sigs') \<Rightarrow> \<not> woken \<and> sigs' = sigs \<and> u_self ur \<notin> waiters (store l' a))
   \<and> UncommittedReader_waitForData ur a l (Notified l1 # sigs) = Some (True, l1, sigs)
   \<and> (case CommittedReader_waitForHW r h l (Closed # sigs) of
      None \<Rightarrow> False
    | Some (woken, l', sigs') \<Rightarrow> \<not> woken \<and> sigs' = sigs \<and> c_self r \<notin> hwWaiters l')
   \<and> (case CommittedReader_waitForHW r h l (Cancelled # sigs) of
      None \<Rightarrow> False
    | Some (woken, l', sigs') \<Rightarrow> \<not> woken \<and> sigs' = sigs \<and> c_self r \<notin> hwWaiters l')
   \<and> CommittedReader_waitForHW r h l (Notified l1 # sigs) = Some (True, l1, sigs)
   \<and> Segment_removeWaiter a w (Segment_removeWaiter a w l) = Segment_removeWaiter a w l
   \<and> CommitLog_removeHWWaiter w (CommitLog_removeHWWaiter w l) = CommitLog_removeHWWaiter w l"
  by (simp add: UncommittedReader_waitForData_def CommittedReader_waitForHW_def
      Segment_waitForData_def Segment_removeWaiter_def CommitLog_waitForHW_def
      CommitLog_removeHWWaiter_def Let_def)

text \<open>
  The claim as stated fails on the satisfied wakeup: after a notification that left the
  waiter set alone, the wait returns true and the reader is still registered.
\<close>

theorem wait_exit_deregistration_counterexample:
  "(case UncommittedReader_waitForData urd_tail 0 log_one [Notified log_one_more] of
      None \<Rightarrow> False
    | Some (woken, l', sigs') \<Rightarrow> woken \<and> u_self urd_tail \<in> waiters (store l' 0))"
  by (simp add: UncommittedReader_waitForData_def urd_tail_def log_one_more_def Segment_waitForData_def
      fileLog_def Let_def)

text \<open>
  C9. The claim fails on the code: \<open>lim\<close> is the number of bytes left up to the HW, and
  it is used as the end index of the slice \<open>p[n:lim]\<close>. After a first pass that read the
  21 committed bytes of \<open>log_one\<close> into a buffer of 22, the second pass computes a bound
  of 0 below \<open>n = 21\<close>, and the slice expression panics, whatever the signals.
\<close>

theorem Read_panics_past_first_pass:
  "NewReaderCommitted log_one 7 0 = Ok rd_start
   \<and> CommittedReader_Read rd_start (replicate 22 0) log_one sigs = Panicked"
proof -
  have c: "NewReaderCommitted log_one 7 0 = Ok rd_start"
    by (simp add: NewReaderCommitted_def ex_defs Let_def)
  have "CommittedReader_Read rd_start (replicate 22 0) log_one sigs = Panicked"
    apply (simp add: CommittedReader_Read_def rd_start_def Let_def)
    apply (subst CommittedReader_readLoop.simps)
    apply (simp add: CommittedReader_readLoop_body_def ex_defs fill_def Let_def)
    apply (subst CommittedReader_readLoop.simps)
    apply (simp add: CommittedReader_readLoop_body_def ex_defs fill_def Let_def)
    done
  with c show ?thesis by simp
qed

text \<open>
  C10. In \<open>readLoop\<close>, a pass reaches the HW sync when its read brought no hard error,
  did not fill the buffer, made no progress and did not report EndOfStream. When the HW
  has moved and \<open>getHWPos\<close> then fails, the call returns the count so far and the error the
  read left, which is nil: the error of \<open>getHWPos\<close> does not reach the caller.
\<close>

theorem readLoop_getHWPos_error_dropped:
  assumes "seg r = Some a" and "int n \<le> readLoop_lim r p"
    and "Segment_ReadAt (store l a) (nat (readLoop_lim r p - int n)) (pos r) = (d, err)"
    and "\<not> (err \<noteq> None \<and> err \<noteq> Some EOF)" and "n + length d \<noteq> length p"
    and "\<not> (length d \<noteq> 0 \<and> err = None)" and "err \<noteq> Some EOF"
    and "CommittedReader_syncHW (r\<lparr>pos := pos r + int (length d)\<rparr>) l sigs = Synced h l' sigs'"
    and "getHWPos (store l') (Segments l') h = Inl e"
  shows "CommittedReader_readLoop r p n segments l sigs =
           Returned (n + length d) err (fill p n d) (r\<lparr>pos := pos r + int (length d), hw := h\<rparr>) l' sigs'
         \<and> err = None"
  using assms
  by (simp add: CommittedReader_readLoop.simps [of r p n] readLoop_body_read Let_def)

theorem readLoop_getHWPos_error_dropped_witness:
  "CommittedReader_readLoop rd_at_hw (replicate 21 0) 0 [0] log_behind [Notified log_ahead] =
     Returned 0 None (replicate 21 0) (rd_at_hw\<lparr>hw := 5\<rparr>) log_ahead []
   \<and> getHWPos (store log_ahead) (Segments log_ahead) 5 = Inl ErrOffsetOutOfRange"
proof -
  have a1: "seg rd_at_hw = Some 0" by (simp add: rd_at_hw_def)
  have a2: "int 0 \<le> readLoop_lim rd_at_hw (replicate 21 0)" by (simp add: ex_defs)
  have a3: "Segment_ReadAt (store log_behind 0) (nat (readLoop_lim rd_at_hw (replicate 21 0) - int 0))
              (pos rd_at_hw) = ([], None)"
    by (simp add: ex_defs)
  have a4: "\<not> ((None :: error option) \<noteq> None \<and> None \<noteq> Some EOF)" by simp
  have a5: "0 + length ([] :: byte list) \<noteq> length (replicate 21 (0 :: byte))" by simp
  have a6: "\<not> (length ([] :: byte list) \<noteq> 0 \<and> (None :: error option) = None)" by simp
  have a7: "(None :: error option) \<noteq> Some EOF" by simp
  have a8: "CommittedReader_syncHW (rd_at_hw\<lparr>pos := pos rd_at_hw + int (length ([] :: byte list))\<rparr>)
              log_behind [Notified log_ahead] = Synced 5 log_ahead []"
    apply (subst CommittedReader_syncHW.simps)
    apply (simp add: CommittedReader_waitForHW_def ex_defs Let_def)
    apply (subst CommittedReader_syncHW.simps)
    apply (simp add: ex_defs Let_def)
    done
  have a9: "getHWPos (store log_ahead) (Segments log_ahead) 5 = Inl ErrOffsetOutOfRange"
    by (simp add: ex_defs)
  from readLoop_getHWPos_error_dropped [OF a1 a2 a3 a4 a5 a6 a7 a8 a9, of "[0]"] a9
  show ?thesis by (simp add: fill_def)
qed

end
